theory Spec2Isabelle
  imports Complex_Main "HOL-Library.AList" "HOL-Library.Multiset" "HOL-Library.Product_Lexorder"
    "HOL-Library.Log_Nat"
begin

section \<open>Data model of \<^verbatim>\<open>parking/parking_management.py\<close>\<close>

text \<open>
  Counters that the code only ever adds integers to (\<^verbatim>\<open>Time\<close>, \<^verbatim>\<open>total_cars\<close>,
  \<^verbatim>\<open>total_time\<close>, \<^verbatim>\<open>Occupancy\<close>, \<^verbatim>\<open>Available\<close>) are \<open>int\<close>. Amounts of money
  (\<^verbatim>\<open>Invoice\<close>, \<^verbatim>\<open>total_revenue\<close>, the price per hour) are \<open>rat\<close>: \<^verbatim>\<open>/\<close> is exact
  division and \<^verbatim>\<open>//\<close> is floor division, as for Python's \<^verbatim>\<open>int\<close>. The rounding that
  binary floats and \<^verbatim>\<open>Decimal\<close> apply to each result is not part of this model of the
  amounts, nor is the truncation towards zero of \<^verbatim>\<open>//\<close> on a negative
  \<^verbatim>\<open>Decimal\<close>. The coordinates of a detection are single precision floats, and the
  one rounding that decides a verdict, that of their sum, is modelled (\<open>float32\<close> below).
\<close>

datatype error = ValueError | FileError | KeyError | TypeError | IndexError | LibraryError

type_synonym point = "int \<times> int"

text \<open>
  One annotation of the JSON file: a dictionary with the key \<^verbatim>\<open>points\<close>, a list of
  \<^verbatim>\<open>[x, y]\<close> pairs of integers.
\<close>

record region =
  points :: "point list"

text \<open>
  What \<^verbatim>\<open>json.load\<close> returns for a configuration file: a list of annotations, or a value
  without a length (a number, \<^verbatim>\<open>true\<close>, \<^verbatim>\<open>false\<close>, \<^verbatim>\<open>null\<close>), on which
  \<^verbatim>\<open>len\<close> raises \<^verbatim>\<open>TypeError\<close>.
\<close>

datatype content = Annotations "region list" | Unsized

text \<open>One entry of \<^verbatim>\<open>self.spots\<close>: \<^verbatim>\<open>{'Time': 0, 'Invoice': 0, 'IsAvailable': True}\<close>.\<close>

record spot =
  Time :: int
  Invoice :: rat
  IsAvailable :: bool

text \<open>The dictionary \<^verbatim>\<open>self.pr_info\<close>.\<close>

record info =
  Occupancy :: int
  Available :: int
  total_cars :: int
  total_time :: int
  total_revenue :: rat

text \<open>
  \<^verbatim>\<open>self.spots\<close> is a dictionary keyed by \<^verbatim>\<open>idx+1\<close>; it is an association list in
  insertion order, read with \<open>map_of\<close> and written with \<open>AList.update\<close>.
\<close>

type_synonym spots = "(nat \<times> spot) list"

text \<open>
  The fields of a \<^verbatim>\<open>ParkingManagement\<close> object that the billing logic reads or
  writes. \<^verbatim>\<open>price_per_hour\<close> is \<open>None\<close> when the keyword argument is left at
  its default.
\<close>

record parking =
  json :: "region list"
  pr_info :: info
  price_per_hour :: "rat option"
  spots :: spots

text \<open>
  A bounding box \<^verbatim>\<open>box[0..3]\<close> (x1, y1, x2, y2), each entry the exact value of a
  single precision float, and a class id.
\<close>

type_synonym box = "rat \<times> rat \<times> rat \<times> rat"

text \<open>
  \<^verbatim>\<open>cv2.pointPolygonTest(contour, pt, False)\<close> belongs to OpenCV; the model takes it
  as a parameter. By OpenCV's contract the result is positive inside the polygon, zero on
  an edge and negative outside.
\<close>

type_synonym polygon_test = "point list \<Rightarrow> point \<Rightarrow> rat"

section \<open>Helpers\<close>

text \<open>Sequencing of steps that may raise.\<close>

definition and_then :: "'e + 'a \<Rightarrow> ('a \<Rightarrow> 'e + 'b) \<Rightarrow> 'e + 'b" where
  "and_then r f = (case r of Inl e \<Rightarrow> Inl e | Inr x \<Rightarrow> f x)"

text \<open>
  \<^verbatim>\<open>return (amount // 100) * 100\<close>. For \<^verbatim>\<open>int\<close> and \<^verbatim>\<open>float\<close> amounts, and for
  \<^verbatim>\<open>Decimal\<close> amounts that are not negative, \<^verbatim>\<open>//\<close> is the floor of the quotient.
\<close>

definition round_invoice :: "rat \<Rightarrow> rat" where
  "round_invoice amount = of_int \<lfloor>amount / 100\<rfloor> * 100"

text \<open>\<^verbatim>\<open>return (price_per_hour / 60) * time\<close>\<close>

definition calc_invoice :: "rat \<Rightarrow> rat \<Rightarrow> rat" where
  "calc_invoice time price = (price / 60) * time"

text \<open>
  \<^verbatim>\<open>min(p[0] for p in points)\<close>, \<^verbatim>\<open>min(p[1] for p in points)\<close>; Python's
  \<^verbatim>\<open>min\<close> of an empty sequence raises \<^verbatim>\<open>ValueError\<close>.
\<close>

definition get_min_coords :: "region \<Rightarrow> error + (int \<times> int)" where
  "get_min_coords polygon =
     (case points polygon of
        [] \<Rightarrow> Inl ValueError
      | p # ps \<Rightarrow>
          (let min_x = fold min (map fst ps) (fst p);
               min_y = fold min (map snd ps) (snd p)
           in Inr (min_y, min_x)))"

text \<open>Python's \<^verbatim>\<open>%\<close> on numbers: \<^verbatim>\<open>x % y == x - (x // y) * y\<close>.\<close>

definition py_mod :: "rat \<Rightarrow> rat \<Rightarrow> rat" where
  "py_mod x y = x - of_int \<lfloor>x / y\<rfloor> * y"

text \<open>Python's \<^verbatim>\<open>int(x)\<close> on a non-integral number truncates towards zero.\<close>

definition py_int :: "rat \<Rightarrow> int" where
  "py_int x = (if x < 0 then \<lceil>x\<rceil> else \<lfloor>x\<rfloor>)"

subsection \<open>Single precision\<close>

text \<open>
  The entries of \<^verbatim>\<open>self.boxes\<close> are single precision floats, and so is the sum of two
  of them: the exact sum rounded to 24 significant bits, ties to the even neighbour.
  \<open>exponent2 x\<close> is the \<open>e\<close> with \<open>2 ^ e \<le> \<bar>x\<bar> < 2 ^ (e + 1)\<close>. The exponent range is
  not bounded: sums beyond the largest single precision float (about \<open>3.4e38\<close>), far
  outside the coordinates of a frame, are not represented as infinities.
\<close>

definition round_half_even :: "rat \<Rightarrow> int" where
  "round_half_even x =
     (let n = \<lfloor>x\<rfloor>; r = x - of_int n
      in if r < 1 / 2 then n else if 1 / 2 < r then n + 1 else if even n then n else n + 1)"

definition exponent2 :: "rat \<Rightarrow> int" where
  "exponent2 x =
     (if 1 \<le> \<bar>x\<bar> then bitlen \<lfloor>\<bar>x\<bar>\<rfloor> - 1 else - bitlen (\<lceil>1 / \<bar>x\<bar>\<rceil> - 1))"

definition float32 :: "rat \<Rightarrow> rat" where
  "float32 x =
     (if x = 0 then 0
      else (let u = 2 powi (exponent2 x - 23) in of_int (round_half_even (x / u)) * u))"

section \<open>\<^verbatim>\<open>ParkingManagement.__init__\<close>\<close>

definition new_spot :: spot where
  "new_spot = \<lparr>Time = 0, Invoice = 0, IsAvailable = True\<rparr>"

definition new_info :: info where
  "new_info = \<lparr>Occupancy = 0, Available = 0, total_cars = 0, total_time = 0, total_revenue = 0\<rparr>"

text \<open>
  \<^verbatim>\<open>for idx in range(len(self.json)): self.spots[idx+1] = {...}\<close>, starting from the
  empty dictionary.
\<close>

definition init_spots :: "nat \<Rightarrow> spots" where
  "init_spots n = fold (\<lambda>idx sp. AList.update (idx + 1) new_spot sp) [0..<n] []"

text \<open>
  The constructor. \<open>base\<close> is the outcome of \<^verbatim>\<open>super().__init__(**kwargs)\<close>, the
  constructor of the detection library's base class (\<open>Some e\<close> when it raises);
  \<open>json_file\<close> is \<^verbatim>\<open>self.CFG["json_file"]\<close>; \<open>files\<close> stands for \<^verbatim>\<open>open\<close> followed
  by \<^verbatim>\<open>json.load\<close> (\<open>None\<close> when either raises). The only check the constructor makes
  itself is the one for a missing path. An exception leaves no object behind.
\<close>

definition init ::
  "error option \<Rightarrow> (string \<rightharpoonup> content) \<Rightarrow> string option \<Rightarrow> rat option \<Rightarrow> error + parking" where
  "init base files json_file price =
     (case base of
        Some e \<Rightarrow> Inl e
      | None \<Rightarrow>
          (case json_file of
             None \<Rightarrow> Inl ValueError
           | Some path \<Rightarrow>
               (case files path of
                  None \<Rightarrow> Inl FileError
                | Some Unsized \<Rightarrow> Inl TypeError
                | Some (Annotations js) \<Rightarrow>
                    Inr \<lparr>json = js, pr_info = new_info, price_per_hour = price,
                         spots = init_spots (length js)\<rparr>)))"

section \<open>\<^verbatim>\<open>ParkingManagement.process_data\<close>\<close>

text \<open>
  \<^verbatim>\<open>xc, yc = int((box[0] + box[2]) / 2), int((box[1] + box[3]) / 2)\<close>: the sum is a
  single precision float, halving it is exact, and \<^verbatim>\<open>int\<close> truncates.
\<close>

definition centroid :: "box \<Rightarrow> point" where
  "centroid b =
     (case b of (x1, y1, x2, y2) \<Rightarrow>
        (py_int (float32 (x1 + x2) / 2), py_int (float32 (y1 + y2) / 2)))"

text \<open>
  The inner loop over \<^verbatim>\<open>zip(self.boxes, self.clss)\<close>: \<^verbatim>\<open>rg_occupied\<close> starts
  \<^verbatim>\<open>False\<close> and the first detection with \<^verbatim>\<open>dist >= 0\<close> sets it and leaves the
  loop. The label drawn on the image is not part of the state.
\<close>

fun rg_occupied :: "polygon_test \<Rightarrow> point list \<Rightarrow> (box \<times> nat) list \<Rightarrow> bool" where
  "rg_occupied ppt pts [] = False"
| "rg_occupied ppt pts ((b, cls) # rest) =
     (if ppt pts (centroid b) \<ge> 0 then True else rg_occupied ppt pts rest)"

text \<open>
  \<^verbatim>\<open>draw_polygon_with_number\<close> changes the image only, but it reads
  \<^verbatim>\<open>pts_array[0]\<close>, which raises \<^verbatim>\<open>IndexError\<close> for a polygon without points.
\<close>

definition draw_polygon_with_number :: "point list \<Rightarrow> error + unit" where
  "draw_polygon_with_number pts_array = (case pts_array of [] \<Rightarrow> Inl IndexError | p # ps \<Rightarrow> Inr ())"

text \<open>
  The four \<^verbatim>\<open>if\<close> statements of the loop body, in the order of the source. Each one
  reads \<^verbatim>\<open>self.spots[idx+1]['IsAvailable']\<close> afresh (a missing key raises
  \<^verbatim>\<open>KeyError\<close>), so a later test sees what an earlier statement wrote. A statement that
  raises returns the exception together with \<^verbatim>\<open>pr_info\<close> and \<^verbatim>\<open>spots\<close> as they
  are at that moment.
\<close>

definition still_available ::
  "nat \<Rightarrow> bool \<Rightarrow> info \<times> spots \<Rightarrow> (error \<times> info \<times> spots) + (info \<times> spots)" where
  "still_available k occ st =
     (case st of (pr, sp) \<Rightarrow>
        (case map_of sp k of
           None \<Rightarrow> Inl (KeyError, pr, sp)
         | Some r \<Rightarrow> Inr (pr, sp)))"

definition open_session ::
  "nat \<Rightarrow> bool \<Rightarrow> info \<times> spots \<Rightarrow> (error \<times> info \<times> spots) + (info \<times> spots)" where
  "open_session k occ st =
     (case st of (pr, sp) \<Rightarrow>
        (case map_of sp k of
           None \<Rightarrow> Inl (KeyError, pr, sp)
         | Some r \<Rightarrow>
             if IsAvailable r \<and> occ
             then Inr (pr\<lparr>total_cars := total_cars pr + 1\<rparr>,
                       AList.update k (r\<lparr>IsAvailable := False\<rparr>) sp)
             else Inr (pr, sp)))"

definition close_session ::
  "nat \<Rightarrow> bool \<Rightarrow> info \<times> spots \<Rightarrow> (error \<times> info \<times> spots) + (info \<times> spots)" where
  "close_session k occ st =
     (case st of (pr, sp) \<Rightarrow>
        (case map_of sp k of
           None \<Rightarrow> Inl (KeyError, pr, sp)
         | Some r \<Rightarrow>
             if \<not> IsAvailable r \<and> \<not> occ
             then Inr (pr\<lparr>total_time := total_time pr + Time r,
                          total_revenue := total_revenue pr + round_invoice (Invoice r)\<rparr>,
                       AList.update k (r\<lparr>Time := 0, Invoice := 0, IsAvailable := True\<rparr>) sp)
             else Inr (pr, sp)))"

text \<open>
  \<^verbatim>\<open>calc_invoice\<close> divides the price by 60: with \<^verbatim>\<open>price_per_hour=None\<close> that
  raises \<^verbatim>\<open>TypeError\<close>, after \<^verbatim>\<open>Time\<close> has been incremented.
\<close>

definition continue_session ::
  "rat option \<Rightarrow> nat \<Rightarrow> bool \<Rightarrow> info \<times> spots \<Rightarrow> (error \<times> info \<times> spots) + (info \<times> spots)" where
  "continue_session price k occ st =
     (case st of (pr, sp) \<Rightarrow>
        (case map_of sp k of
           None \<Rightarrow> Inl (KeyError, pr, sp)
         | Some r \<Rightarrow>
             if \<not> IsAvailable r \<and> occ
             then (case price of
                     None \<Rightarrow> Inl (TypeError, pr, AList.update k (r\<lparr>Time := Time r + 1\<rparr>) sp)
                   | Some p \<Rightarrow>
                       Inr (pr, AList.update k
                              (r\<lparr>Time := Time r + 1,
                                 Invoice := calc_invoice (of_int (Time r + 1)) p\<rparr>) sp))
             else Inr (pr, sp)))"

definition update_spot ::
  "rat option \<Rightarrow> nat \<Rightarrow> bool \<Rightarrow> info \<times> spots \<Rightarrow> (error \<times> info \<times> spots) + (info \<times> spots)" where
  "update_spot price k occ st =
     and_then (and_then (and_then (still_available k occ st) (open_session k occ))
                 (close_session k occ)) (continue_session price k occ)"

text \<open>
  The loop \<^verbatim>\<open>for idx, region in enumerate(self.json)\<close>. The loop state is
  \<^verbatim>\<open>(fs, es)\<close>, \<^verbatim>\<open>self.pr_info\<close> and \<^verbatim>\<open>self.spots\<close>. In each pass the verdict is
  computed, the two counters are stepped, the polygon is drawn and then the four
  statements run.
\<close>

fun regions_loop ::
  "polygon_test \<Rightarrow> (box \<times> nat) list \<Rightarrow> rat option \<Rightarrow> nat \<Rightarrow> region list \<Rightarrow>
   (int \<times> int) \<times> info \<times> spots \<Rightarrow> (error \<times> info \<times> spots) + ((int \<times> int) \<times> info \<times> spots)" where
  "regions_loop ppt dets price idx [] st = Inr st"
| "regions_loop ppt dets price idx (rg # rest) st =
     (case st of ((fs, es), ps) \<Rightarrow>
        (let occ = rg_occupied ppt (points rg) dets;
             cnt = (if occ then (fs + 1, es - 1) else (fs, es))
         in case draw_polygon_with_number (points rg) of
              Inl e \<Rightarrow> Inl (e, ps)
            | Inr u \<Rightarrow>
                and_then (update_spot price (idx + 1) occ ps)
                  (\<lambda>ps'. regions_loop ppt dets price (idx + 1) rest (cnt, ps'))))"

text \<open>
  One call of \<^verbatim>\<open>process_data\<close>. \<open>boxes\<close> and \<open>clss\<close> are what
  \<^verbatim>\<open>extract_tracks\<close> left in \<^verbatim>\<open>self.boxes\<close> and \<^verbatim>\<open>self.clss\<close>. A call that
  raises is \<open>Inl\<close>, with the object as the exception leaves it: the writes made to
  \<^verbatim>\<open>pr_info\<close> and \<^verbatim>\<open>spots\<close> so far, and the two per-frame counts of the previous
  call. The other calls into the detection and drawing libraries
  (\<^verbatim>\<open>extract_tracks\<close>, \<^verbatim>\<open>Annotator\<close>, \<^verbatim>\<open>display_output\<close>) do not touch
  \<^verbatim>\<open>pr_info\<close> or \<^verbatim>\<open>spots\<close> and are left out.
\<close>

definition process_data ::
  "polygon_test \<Rightarrow> box list \<Rightarrow> nat list \<Rightarrow> parking \<Rightarrow> (error \<times> parking) + parking" where
  "process_data ppt boxes clss s =
     (case regions_loop ppt (zip boxes clss) (price_per_hour s) 0 (json s)
             ((0, int (length (json s))), pr_info s, spots s) of
        Inl (e, pr, sp) \<Rightarrow> Inl (e, s\<lparr>pr_info := pr, spots := sp\<rparr>)
      | Inr ((fs, es), pr, sp) \<Rightarrow>
          Inr (s\<lparr>pr_info := pr\<lparr>Occupancy := fs, Available := es\<rparr>, spots := sp\<rparr>))"

text \<open>
  Successive calls of \<^verbatim>\<open>process_data\<close>, one per frame, on the same object, up to the
  first call that raises.
\<close>

fun process_frames ::
  "polygon_test \<Rightarrow> (box list \<times> nat list) list \<Rightarrow> parking \<Rightarrow> (error \<times> parking) + parking" where
  "process_frames ppt [] s = Inr s"
| "process_frames ppt (f # fs) s =
     and_then (process_data ppt (fst f) (snd f) s) (process_frames ppt fs)"

section \<open>A containment test for examples\<close>

text \<open>
  For an axis-parallel rectangle the containment test is a comparison with the least and
  greatest coordinates of its corners. \<open>bbox_test\<close> serves as the \<open>polygon_test\<close> in the
  worked examples below.
\<close>

definition bbox_test :: polygon_test where
  "bbox_test pts c =
     (case pts of
        [] \<Rightarrow> -1
      | p # ps \<Rightarrow>
          (let lx = fold min (map fst ps) (fst p); hx = fold max (map fst ps) (fst p);
               ly = fold min (map snd ps) (snd p); hy = fold max (map snd ps) (snd p)
           in if fst c < lx \<or> hx < fst c \<or> snd c < ly \<or> hy < snd c then -1
              else if fst c = lx \<or> fst c = hx \<or> snd c = ly \<or> snd c = hy then 0
              else 1))"

section \<open>\<^verbatim>\<open>CreateAnnotationView.post\<close>: ordering of the annotations\<close>

text \<open>
  \<^verbatim>\<open>sorted(annotation_data, key=get_min_coords)\<close>. Python's \<^verbatim>\<open>sorted\<close> computes
  the key of every element first (a key that raises aborts the call), then sorts stably by
  the keys; tuples compare lexicographically. The sorted list is written to the JSON file
  that the constructor reads, so the polygon at position \<open>idx\<close> of the result is the
  Space with id \<open>idx + 1\<close>.
\<close>

fun with_keys :: "region list \<Rightarrow> error + ((int \<times> int) \<times> region) list" where
  "with_keys [] = Inr []"
| "with_keys (rg # rest) =
     and_then (get_min_coords rg)
       (\<lambda>k. and_then (with_keys rest) (\<lambda>krs. Inr ((k, rg) # krs)))"

definition sorted_by_min_coords :: "region list \<Rightarrow> error + region list" where
  "sorted_by_min_coords annotation_data =
     and_then (with_keys annotation_data) (\<lambda>krs. Inr (map snd (sort_key fst krs)))"

text \<open>The key of a polygon that has one (a polygon with at least one point).\<close>

definition key_of :: "region \<Rightarrow> int \<times> int" where
  "key_of rg = (case get_min_coords rg of Inl e \<Rightarrow> (0, 0) | Inr k \<Rightarrow> k)"

section \<open>The invariant of a Space's state\<close>

text \<open>An available Space carries no running time and no running invoice.\<close>

definition available_at_rest :: "spots \<Rightarrow> bool" where
  "available_at_rest sp =
     (\<forall>k r. map_of sp k = Some r \<longrightarrow> IsAvailable r \<longrightarrow> Time r = 0 \<and> Invoice r = 0)"

text \<open>
  A frame in which nothing happens: no detection falls in any Space and every Space of the
  lot is available.
\<close>

definition quiet_frame :: "polygon_test \<Rightarrow> box list \<Rightarrow> nat list \<Rightarrow> parking \<Rightarrow> bool" where
  "quiet_frame ppt boxes clss s =
     (list_all (\<lambda>rg. \<not> rg_occupied ppt (points rg) (zip boxes clss)) (json s)
      \<and> list_all (\<lambda>i. case map_of (spots s) (i + 1) of None \<Rightarrow> False | Some r \<Rightarrow> IsAvailable r)
           [0..<length (json s)])"


section \<open>Worked examples\<close>

text \<open>A lot with two rectangular spaces, configuration files, and frames.\<close>

definition ex_lot :: "region list" where
  "ex_lot = [\<lparr>points = [(0, 0), (10, 0), (10, 10), (0, 10)]\<rparr>,
             \<lparr>points = [(20, 0), (30, 0), (30, 10), (20, 10)]\<rparr>]"

definition ex_files :: "string \<rightharpoonup> content" where
  "ex_files = [''lot.json'' \<mapsto> Annotations ex_lot, ''empty.json'' \<mapsto> Annotations [],
               ''segment.json'' \<mapsto> Annotations [\<lparr>points = [(0, 0), (10, 0)]\<rparr>],
               ''number.json'' \<mapsto> Unsized]"

definition car_in_first :: "box list \<times> nat list" where
  "car_in_first = ([(2, 2, 6, 6)], [2])"


definition no_cars :: "box list \<times> nat list" where
  "no_cars = ([], [])"



text \<open>The session on \<open>ex_lot\<close> right after construction, at a given price per hour.\<close>

definition ex_start :: "rat \<Rightarrow> parking" where
  "ex_start p = \<lparr>json = ex_lot, pr_info = new_info, price_per_hour = Some p,
                  spots = [(1, new_spot), (2, new_spot)]\<rparr>"

text \<open>The same session while a car stands in the first space.\<close>

definition ex_busy :: "rat \<Rightarrow> int \<Rightarrow> parking" where
  "ex_busy p t =
     \<lparr>json = ex_lot,
      pr_info = \<lparr>Occupancy = 1, Available = 1, total_cars = 1, total_time = 0, total_revenue = 0\<rparr>,
      price_per_hour = Some p,
      spots = [(1, \<lparr>Time = t, Invoice = calc_invoice (of_int t) p, IsAvailable = False\<rparr>),
               (2, new_spot)]\<rparr>"

text \<open>The same session after the car has left.\<close>

definition ex_closed :: "rat \<Rightarrow> int \<Rightarrow> rat \<Rightarrow> parking" where
  "ex_closed p t revenue =
     \<lparr>json = ex_lot,
      pr_info = \<lparr>Occupancy = 0, Available = 2, total_cars = 1, total_time = t,
                 total_revenue = revenue\<rparr>,
      price_per_hour = Some p,
      spots = [(1, new_spot), (2, new_spot)]\<rparr>"

text \<open>
  The polygon of the docstring of \<^verbatim>\<open>get_min_coords\<close>, with key \<open>(40, 1553)\<close>, and a
  polygon with key \<open>(10, 500)\<close> whose least coordinates are not those of its first point.
\<close>

definition doc_polygon :: region where
  "doc_polygon = \<lparr>points = [(1553, 48), (1718, 40), (1735, 128), (1577, 133)]\<rparr>"

definition upper_polygon :: region where
  "upper_polygon = \<lparr>points = [(520, 12), (640, 10), (640, 90), (500, 95)]\<rparr>"

text \<open>Two different triangles with the same least coordinates.\<close>

definition small_triangle :: region where
  "small_triangle = \<lparr>points = [(0, 0), (1, 0), (0, 1)]\<rparr>"

definition large_triangle :: region where
  "large_triangle = \<lparr>points = [(0, 0), (2, 0), (0, 2)]\<rparr>"

section \<open>Theorems\<close>

subsection \<open>Basic facts\<close>

lemma and_then_Inr [simp]: "and_then (Inr x) f = f x"
  by (simp add: and_then_def)

lemma and_then_Inl [simp]: "and_then (Inl e) f = Inl e"
  by (simp add: and_then_def)

lemma and_then_eq_Inr: "and_then r f = Inr y \<longleftrightarrow> (\<exists>x. r = Inr x \<and> f x = Inr y)"
  by (cases r) simp_all

lemma map_of_update_same: "map_of (AList.update k v al) k = Some v"
  by (simp add: update_conv')

subsection \<open>One pass over the four statements\<close>

lemma update_spot_missing:
  "map_of sp k = None \<Longrightarrow> update_spot price k occ (pr, sp) = Inl (KeyError, pr, sp)"
  by (simp add: update_spot_def still_available_def)

lemma update_spot_vacant:
  assumes "map_of sp k = Some r" and "IsAvailable r"
  shows "update_spot price k False (pr, sp) = Inr (pr, sp)"
  using assms
  by (simp add: update_spot_def still_available_def open_session_def close_session_def
      continue_session_def)

lemma update_spot_close:
  assumes "map_of sp k = Some r" and "\<not> IsAvailable r"
  shows "update_spot price k False (pr, sp) =
     Inr (pr\<lparr>total_time := total_time pr + Time r,
              total_revenue := total_revenue pr + round_invoice (Invoice r)\<rparr>,
          AList.update k \<lparr>Time = 0, Invoice = 0, IsAvailable = True\<rparr> sp)"
  using assms
  by (cases r)
     (simp add: update_spot_def still_available_def open_session_def close_session_def
      continue_session_def map_of_update_same)

lemma update_spot_occupied:
  assumes "map_of sp k = Some r"
  shows "update_spot price k True (pr, sp) =
     (case price of
        None \<Rightarrow>
          Inl (TypeError,
               if IsAvailable r then pr\<lparr>total_cars := total_cars pr + 1\<rparr> else pr,
               AList.update k \<lparr>Time = Time r + 1, Invoice = Invoice r, IsAvailable = False\<rparr> sp)
      | Some p \<Rightarrow>
          Inr (if IsAvailable r then pr\<lparr>total_cars := total_cars pr + 1\<rparr> else pr,
               AList.update k \<lparr>Time = Time r + 1,
                                Invoice = calc_invoice (of_int (Time r + 1)) p,
                                IsAvailable = False\<rparr> sp))"
  using assms
  by (cases r; cases "IsAvailable r"; cases price)
     (simp_all add: update_spot_def still_available_def open_session_def close_session_def
      continue_session_def map_of_update_same)

text \<open>Whatever the outcome, one pass rewrites at most the entry of its own key.\<close>

lemma update_spot_map:
  assumes "update_spot price k occ (pr, sp) = Inr (pr', sp')
           \<or> update_spot price k occ (pr, sp) = Inl (e, pr', sp')"
  shows "map_of sp' = map_of sp \<or>
         (\<exists>r v. map_of sp k = Some r \<and> map_of sp' = (map_of sp)(k \<mapsto> v)
           \<and> (IsAvailable v \<longrightarrow> v = r \<or> (Time v = 0 \<and> Invoice v = 0)))"
proof (cases "map_of sp k")
  case None
  with assms show ?thesis by (simp add: update_spot_missing)
next
  case (Some r)
  show ?thesis
  proof (cases occ)
    case True
    with assms Some show ?thesis
      by (auto simp: update_spot_occupied update_conv' split: option.splits)
  next
    case False
    show ?thesis
    proof (cases "IsAvailable r")
      case True
      with assms Some False have "sp' = sp" by (simp add: update_spot_vacant)
      then show ?thesis by simp
    next
      case unav: False
      with assms Some False show ?thesis
        by (auto simp: update_spot_close update_conv')
    qed
  qed
qed

lemma update_spot_revenue:
  assumes "update_spot price k occ (pr, sp) = Inr (pr', sp')
           \<or> update_spot price k occ (pr, sp) = Inl (e, pr', sp')"
  shows "total_revenue pr' = total_revenue pr
         \<or> (\<exists>x. total_revenue pr' = total_revenue pr + round_invoice x)"
proof (cases "map_of sp k")
  case None
  with assms show ?thesis by (simp add: update_spot_missing)
next
  case (Some r)
  show ?thesis
  proof (cases occ)
    case True
    with assms Some show ?thesis
      by (auto simp: update_spot_occupied split: option.splits)
  next
    case False
    with assms Some show ?thesis
      by (cases "IsAvailable r") (auto simp: update_spot_vacant update_spot_close)
  qed
qed

lemma update_spot_at_rest:
  assumes "update_spot price k occ (pr, sp) = Inr (pr', sp')
           \<or> update_spot price k occ (pr, sp) = Inl (e, pr', sp')"
    and "available_at_rest sp"
  shows "available_at_rest sp'"
proof -
  from update_spot_map [OF assms(1)] consider
    "map_of sp' = map_of sp"
    | r v where "map_of sp k = Some r" "map_of sp' = (map_of sp)(k \<mapsto> v)"
      "IsAvailable v \<longrightarrow> v = r \<or> (Time v = 0 \<and> Invoice v = 0)"
    by blast
  then show ?thesis
  proof cases
    case 1
    with assms(2) show ?thesis by (simp add: available_at_rest_def)
  next
    case 2
    show ?thesis
      unfolding available_at_rest_def
    proof (intro allI impI)
      fix j x
      assume jx: "map_of sp' j = Some x" and av: "IsAvailable x"
      show "Time x = 0 \<and> Invoice x = 0"
      proof (cases "j = k")
        case True
        with jx 2(2) have "x = v" by simp
        with av 2 assms(2) show ?thesis by (auto simp: available_at_rest_def)
      next
        case False
        with jx 2(2) have "map_of sp j = Some x" by simp
        with av assms(2) show ?thesis by (auto simp: available_at_rest_def)
      qed
    qed
  qed
qed

lemma py_mod_add_round:
  assumes "py_mod a 100 = 0"
  shows "py_mod (a + round_invoice x) 100 = 0"
proof -
  from assms have a: "a = of_int \<lfloor>a / 100\<rfloor> * 100"
    by (simp add: py_mod_def)
  define m where "m = \<lfloor>a / 100\<rfloor> + \<lfloor>x / 100\<rfloor>"
  have "a + round_invoice x = of_int m * 100"
    using a by (simp add: round_invoice_def m_def algebra_simps)
  then show ?thesis by (simp add: py_mod_def)
qed

subsection \<open>The loop over the regions\<close>

lemma regions_loop_Cons:
  "regions_loop ppt dets price idx (rg # rest) ((fs, es), ps) =
     (if points rg = [] then Inl (IndexError, ps)
      else and_then (update_spot price (idx + 1) (rg_occupied ppt (points rg) dets) ps)
             (\<lambda>ps'. regions_loop ppt dets price (idx + 1) rest
                ((if rg_occupied ppt (points rg) dets then (fs + 1, es - 1) else (fs, es)), ps')))"
  by (simp add: Let_def draw_polygon_with_number_def split: list.splits)

declare regions_loop.simps(2) [simp del]

lemma regions_loop_Cons_Inr:
  assumes "regions_loop ppt dets price idx (rg # rest) ((fs, es), ps) = Inr res"
  obtains ps1 where "points rg \<noteq> []"
    and "update_spot price (idx + 1) (rg_occupied ppt (points rg) dets) ps = Inr ps1"
    and "regions_loop ppt dets price (idx + 1) rest
           ((if rg_occupied ppt (points rg) dets then (fs + 1, es - 1) else (fs, es)), ps1)
         = Inr res"
  using assms unfolding regions_loop_Cons
  by (auto simp: and_then_eq_Inr split: if_splits)

lemma regions_loop_counts:
  assumes "regions_loop ppt dets price idx rs ((fs, es), ps) = Inr ((fs', es'), ps')"
  shows "fs' = fs + int (length (filter (\<lambda>rg. rg_occupied ppt (points rg) dets) rs))
         \<and> es' = es - int (length (filter (\<lambda>rg. rg_occupied ppt (points rg) dets) rs))"
  using assms
proof (induction rs arbitrary: idx fs es ps)
  case Nil
  then show ?case by simp
next
  case (Cons rg rest)
  from Cons.prems obtain ps1 where
    rec: "regions_loop ppt dets price (idx + 1) rest
            ((if rg_occupied ppt (points rg) dets then (fs + 1, es - 1) else (fs, es)), ps1)
          = Inr ((fs', es'), ps')"
    by (rule regions_loop_Cons_Inr)
  show ?case
  proof (cases "rg_occupied ppt (points rg) dets")
    case True
    with rec Cons.IH [of "idx + 1" "fs + 1" "es - 1" ps1] show ?thesis by simp
  next
    case False
    with rec Cons.IH [of "idx + 1" fs es ps1] show ?thesis by simp
  qed
qed

text \<open>
  A property of \<^verbatim>\<open>pr_info\<close> and \<^verbatim>\<open>spots\<close> that every pass keeps, whether it returns
  or raises, holds after the loop, whether it returns or raises.
\<close>

lemma regions_loop_preserves:
  assumes step: "\<And>k occ pr sp e pr' sp'.
      update_spot price k occ (pr, sp) = Inr (pr', sp')
      \<or> update_spot price k occ (pr, sp) = Inl (e, pr', sp') \<Longrightarrow> P (pr, sp) \<Longrightarrow> P (pr', sp')"
    and "regions_loop ppt dets price idx rs (cnt, ps) = Inr (cnt', ps')
         \<or> regions_loop ppt dets price idx rs (cnt, ps) = Inl (e, ps')"
    and "P ps"
  shows "P ps'"
  using assms(2,3)
proof (induction rs arbitrary: idx cnt ps)
  case Nil
  then show ?case by auto
next
  case (Cons rg rest)
  obtain pr sp where ps: "ps = (pr, sp)" by (cases ps)
  obtain fs es where cnt: "cnt = (fs, es)" by (cases cnt)
  let ?occ = "rg_occupied ppt (points rg) dets"
  let ?cnt = "if ?occ then (fs + 1, es - 1) else (fs, es)"
  show ?case
  proof (cases "points rg = []")
    case True
    with Cons.prems show ?thesis by (simp add: cnt regions_loop_Cons)
  next
    case False
    show ?thesis
    proof (cases "update_spot price (idx + 1) ?occ ps")
      case (Inl x)
      obtain pr1 sp1 where x: "x = (e, pr1, sp1)" "ps' = (pr1, sp1)"
        using Cons.prems(1) False Inl by (cases x) (auto simp: cnt regions_loop_Cons)
      from step [of "idx + 1" ?occ pr sp pr1 sp1 e] Inl x Cons.prems(2)
      show ?thesis by (simp add: ps)
    next
      case (Inr ps1)
      obtain pr1 sp1 where ps1: "ps1 = (pr1, sp1)" by (cases ps1)
      from step [of "idx + 1" ?occ pr sp pr1 sp1 e] Inr Cons.prems(2)
      have "P ps1" by (simp add: ps ps1)
      moreover from Cons.prems(1) False Inr
      have "regions_loop ppt dets price (idx + 1) rest (?cnt, ps1) = Inr (cnt', ps')
            \<or> regions_loop ppt dets price (idx + 1) rest (?cnt, ps1) = Inl (e, ps')"
        by (simp add: cnt regions_loop_Cons)
      ultimately show ?thesis by (rule Cons.IH [rotated])
    qed
  qed
qed

lemma regions_loop_at_rest:
  assumes "regions_loop ppt dets price idx rs (cnt, pr, sp) = Inr (cnt', pr', sp')
           \<or> regions_loop ppt dets price idx rs (cnt, pr, sp) = Inl (e, pr', sp')"
    and "available_at_rest sp"
  shows "available_at_rest sp'"
proof -
  have "available_at_rest (snd (pr', sp'))"
  proof (rule regions_loop_preserves [where P = "\<lambda>ps. available_at_rest (snd ps)", OF _ assms(1)])
    fix k occ p s e' p' s'
    assume "update_spot price k occ (p, s) = Inr (p', s')
            \<or> update_spot price k occ (p, s) = Inl (e', p', s')"
      and "available_at_rest (snd (p, s))"
    then show "available_at_rest (snd (p', s'))"
      using update_spot_at_rest [of price k occ p s p' s' e'] by simp
  next
    show "available_at_rest (snd (pr, sp))" using assms(2) by simp
  qed
  then show ?thesis by simp
qed

lemma regions_loop_revenue:
  assumes "regions_loop ppt dets price idx rs (cnt, pr, sp) = Inr (cnt', pr', sp')
           \<or> regions_loop ppt dets price idx rs (cnt, pr, sp) = Inl (e, pr', sp')"
    and "py_mod (total_revenue pr) 100 = 0"
  shows "py_mod (total_revenue pr') 100 = 0"
proof -
  have "py_mod (total_revenue (fst (pr', sp'))) 100 = 0"
  proof (rule regions_loop_preserves [where P = "\<lambda>ps. py_mod (total_revenue (fst ps)) 100 = 0", OF _ assms(1)])
    fix k occ p s e' p' s'
    assume "update_spot price k occ (p, s) = Inr (p', s')
            \<or> update_spot price k occ (p, s) = Inl (e', p', s')"
      and "py_mod (total_revenue (fst (p, s))) 100 = 0"
    then show "py_mod (total_revenue (fst (p', s'))) 100 = 0"
      using update_spot_revenue [of price k occ p s p' s' e'] py_mod_add_round by auto
  next
    show "py_mod (total_revenue (fst (pr, sp))) 100 = 0" using assms(2) by simp
  qed
  then show ?thesis by simp
qed

subsection \<open>Whole frames and the constructor\<close>

lemma process_data_Inr:
  assumes "process_data ppt boxes clss s = Inr s'"
  obtains fs es pr sp where
    "regions_loop ppt (zip boxes clss) (price_per_hour s) 0 (json s)
       ((0, int (length (json s))), pr_info s, spots s) = Inr ((fs, es), pr, sp)"
    and "s' = s\<lparr>pr_info := pr\<lparr>Occupancy := fs, Available := es\<rparr>, spots := sp\<rparr>"
proof (cases "regions_loop ppt (zip boxes clss) (price_per_hour s) 0 (json s)
       ((0, int (length (json s))), pr_info s, spots s)")
  case (Inl x)
  obtain e pr sp where "x = (e, pr, sp)" by (cases x)
  with Inl assms show thesis by (simp add: process_data_def)
next
  case (Inr y)
  obtain fs es pr sp where y: "y = ((fs, es), pr, sp)" by (cases y) auto
  with Inr assms have "s' = s\<lparr>pr_info := pr\<lparr>Occupancy := fs, Available := es\<rparr>, spots := sp\<rparr>"
    by (simp add: process_data_def)
  with Inr y that show thesis by simp
qed

lemma process_data_Inl:
  assumes "process_data ppt boxes clss s = Inl (e, s')"
  obtains pr sp where
    "regions_loop ppt (zip boxes clss) (price_per_hour s) 0 (json s)
       ((0, int (length (json s))), pr_info s, spots s) = Inl (e, pr, sp)"
    and "s' = s\<lparr>pr_info := pr, spots := sp\<rparr>"
proof (cases "regions_loop ppt (zip boxes clss) (price_per_hour s) 0 (json s)
       ((0, int (length (json s))), pr_info s, spots s)")
  case (Inl x)
  obtain e' pr sp where x: "x = (e', pr, sp)" by (cases x)
  with Inl assms have "e' = e" and "s' = s\<lparr>pr_info := pr, spots := sp\<rparr>"
    by (simp_all add: process_data_def)
  with Inl x that show thesis by simp
next
  case (Inr y)
  obtain fs es pr sp where "y = ((fs, es), pr, sp)" by (cases y) auto
  with Inr assms show thesis by (simp add: process_data_def)
qed

lemma process_data_at_rest:
  assumes "process_data ppt boxes clss s = Inr s' \<or> process_data ppt boxes clss s = Inl (e, s')"
    and "available_at_rest (spots s)"
  shows "available_at_rest (spots s')"
  using assms(1)
proof
  assume "process_data ppt boxes clss s = Inr s'"
  then obtain fs es pr sp where
    loop: "regions_loop ppt (zip boxes clss) (price_per_hour s) 0 (json s)
       ((0, int (length (json s))), pr_info s, spots s) = Inr ((fs, es), pr, sp)"
    and s': "s' = s\<lparr>pr_info := pr\<lparr>Occupancy := fs, Available := es\<rparr>, spots := sp\<rparr>"
    by (rule process_data_Inr)
  from loop have "available_at_rest sp"
    using regions_loop_at_rest [OF disjI1, OF loop assms(2)] by simp
  with s' show ?thesis by simp
next
  assume "process_data ppt boxes clss s = Inl (e, s')"
  then obtain pr sp where
    loop: "regions_loop ppt (zip boxes clss) (price_per_hour s) 0 (json s)
       ((0, int (length (json s))), pr_info s, spots s) = Inl (e, pr, sp)"
    and s': "s' = s\<lparr>pr_info := pr, spots := sp\<rparr>"
    by (rule process_data_Inl)
  from loop have "available_at_rest sp"
    using regions_loop_at_rest [OF disjI2, OF loop assms(2)] by simp
  with s' show ?thesis by simp
qed

lemma process_data_revenue:
  assumes "process_data ppt boxes clss s = Inr s' \<or> process_data ppt boxes clss s = Inl (e, s')"
    and "py_mod (total_revenue (pr_info s)) 100 = 0"
  shows "py_mod (total_revenue (pr_info s')) 100 = 0"
  using assms(1)
proof
  assume "process_data ppt boxes clss s = Inr s'"
  then obtain fs es pr sp where
    loop: "regions_loop ppt (zip boxes clss) (price_per_hour s) 0 (json s)
       ((0, int (length (json s))), pr_info s, spots s) = Inr ((fs, es), pr, sp)"
    and s': "s' = s\<lparr>pr_info := pr\<lparr>Occupancy := fs, Available := es\<rparr>, spots := sp\<rparr>"
    by (rule process_data_Inr)
  from loop have "py_mod (total_revenue pr) 100 = 0"
    using regions_loop_revenue [OF disjI1, OF loop assms(2)] by simp
  with s' show ?thesis by simp
next
  assume "process_data ppt boxes clss s = Inl (e, s')"
  then obtain pr sp where
    loop: "regions_loop ppt (zip boxes clss) (price_per_hour s) 0 (json s)
       ((0, int (length (json s))), pr_info s, spots s) = Inl (e, pr, sp)"
    and s': "s' = s\<lparr>pr_info := pr, spots := sp\<rparr>"
    by (rule process_data_Inl)
  from loop have "py_mod (total_revenue pr) 100 = 0"
    using regions_loop_revenue [OF disjI2, OF loop assms(2)] by simp
  with s' show ?thesis by simp
qed

text \<open>
  A property of the object that every call keeps, whether it returns or raises, holds
  after any number of calls, also when the last of them raised.
\<close>

lemma process_frames_preserves:
  assumes step: "\<And>f s e s'.
      process_data ppt (fst f) (snd f) s = Inr s'
      \<or> process_data ppt (fst f) (snd f) s = Inl (e, s') \<Longrightarrow> P s \<Longrightarrow> P s'"
    and "process_frames ppt frames s = Inr s' \<or> process_frames ppt frames s = Inl (e, s')"
    and "P s"
  shows "P s'"
  using assms(2,3)
proof (induction frames arbitrary: s)
  case Nil
  then show ?case by auto
next
  case (Cons f frames)
  show ?case
  proof (cases "process_data ppt (fst f) (snd f) s")
    case (Inl x)
    with Cons.prems(1) have "x = (e, s')" by simp
    with Inl step [of f s s' e] Cons.prems(2) show ?thesis by simp
  next
    case (Inr s1)
    with step [of f s s1 e] Cons.prems(2) have "P s1" by simp
    moreover from Cons.prems(1) Inr
    have "process_frames ppt frames s1 = Inr s' \<or> process_frames ppt frames s1 = Inl (e, s')"
      by simp
    ultimately show ?thesis by (rule Cons.IH [rotated])
  qed
qed

lemma process_frames_at_rest:
  assumes "process_frames ppt frames s = Inr s' \<or> process_frames ppt frames s = Inl (e, s')"
    and "available_at_rest (spots s)"
  shows "available_at_rest (spots s')"
  using process_frames_preserves [where P = "\<lambda>s. available_at_rest (spots s)", OF _ assms]
    process_data_at_rest
  by blast

lemma process_frames_revenue:
  assumes "process_frames ppt frames s = Inr s' \<or> process_frames ppt frames s = Inl (e, s')"
    and "py_mod (total_revenue (pr_info s)) 100 = 0"
  shows "py_mod (total_revenue (pr_info s')) 100 = 0"
  using process_frames_preserves
    [where P = "\<lambda>s. py_mod (total_revenue (pr_info s)) 100 = 0", OF _ assms]
    process_data_revenue
  by blast

lemma init_spots_Suc: "init_spots (Suc n) = AList.update (Suc n) new_spot (init_spots n)"
  by (simp add: init_spots_def)

lemma map_of_init_spots:
  "map_of (init_spots n) k = (if 1 \<le> k \<and> k \<le> n then Some new_spot else None)"
proof (induction n)
  case 0
  then show ?case by (simp add: init_spots_def)
next
  case (Suc n)
  then show ?case by (auto simp: init_spots_Suc update_conv')
qed

lemma init_spots_at_rest: "available_at_rest (init_spots n)"
  by (simp add: available_at_rest_def map_of_init_spots new_spot_def)

lemma init_Inr:
  assumes "init base files json_file price = Inr s"
  shows "\<exists>path js. base = None \<and> json_file = Some path \<and> files path = Some (Annotations js)
           \<and> s = \<lparr>json = js, pr_info = new_info, price_per_hour = price,
                   spots = init_spots (length js)\<rparr>"
  using assms by (auto simp: init_def split: option.splits content.splits)

subsection \<open>Spaces that stay available\<close>

lemma regions_loop_vacant_space:
  assumes "regions_loop ppt dets price idx rs (cnt, pr, sp) = Inr (cnt', pr', sp')"
    and "map_of sp k = Some r" and "IsAvailable r"
    and "\<And>i. i < length rs \<Longrightarrow> k = idx + i + 1 \<Longrightarrow> \<not> rg_occupied ppt (points (rs ! i)) dets"
  shows "map_of sp' k = Some r"
  using assms
proof (induction rs arbitrary: idx cnt pr sp)
  case Nil
  then show ?case by simp
next
  case (Cons rg rest)
  obtain fs es where cnt: "cnt = (fs, es)" by (cases cnt)
  let ?occ = "rg_occupied ppt (points rg) dets"
  from Cons.prems(1) obtain ps1 where
    one: "update_spot price (idx + 1) ?occ (pr, sp) = Inr ps1"
    and rec: "regions_loop ppt dets price (idx + 1) rest
            ((if ?occ then (fs + 1, es - 1) else (fs, es)), ps1) = Inr (cnt', pr', sp')"
    unfolding cnt by (rule regions_loop_Cons_Inr)
  obtain pr1 sp1 where ps1: "ps1 = (pr1, sp1)" by (cases ps1)
  have kept: "map_of sp1 k = Some r"
  proof (cases "k = idx + 1")
    case True
    with Cons.prems(4) [of 0] have "\<not> ?occ" by simp
    with one True Cons.prems(2,3) have "ps1 = (pr, sp)"
      by (simp add: update_spot_vacant)
    with ps1 Cons.prems(2) show ?thesis by simp
  next
    case False
    from one have "update_spot price (idx + 1) ?occ (pr, sp) = Inr (pr1, sp1)
        \<or> update_spot price (idx + 1) ?occ (pr, sp) = Inl (KeyError, pr1, sp1)"
      by (simp add: ps1)
    from update_spot_map [OF this] False Cons.prems(2) show ?thesis by auto
  qed
  have later: "\<not> rg_occupied ppt (points (rest ! i)) dets"
    if "i < length rest" and "k = idx + 1 + i + 1" for i
    using Cons.prems(4) [of "Suc i"] that by simp
  from Cons.IH [OF rec [unfolded ps1] kept Cons.prems(3) later] show ?case .
qed

lemma regions_loop_all_vacant:
  assumes "regions_loop ppt dets price idx rs ((fs, es), pr, sp) = Inr res"
    and "\<forall>rg \<in> set rs. \<not> rg_occupied ppt (points rg) dets"
    and "\<forall>i < length rs. \<exists>r. map_of sp (idx + i + 1) = Some r \<and> IsAvailable r"
  shows "res = ((fs, es), pr, sp)"
  using assms
proof (induction rs arbitrary: idx)
  case Nil
  then show ?case by simp
next
  case (Cons rg rest)
  from Cons.prems(3) obtain r where r: "map_of sp (idx + 1) = Some r" "IsAvailable r"
    by fastforce
  from Cons.prems(2) have quiet: "\<not> rg_occupied ppt (points rg) dets" by simp
  from Cons.prems(1) obtain ps1 where
    one: "update_spot price (idx + 1) (rg_occupied ppt (points rg) dets) (pr, sp) = Inr ps1"
    and rec: "regions_loop ppt dets price (idx + 1) rest
            ((if rg_occupied ppt (points rg) dets then (fs + 1, es - 1) else (fs, es)), ps1)
          = Inr res"
    by (rule regions_loop_Cons_Inr)
  from one quiet r have ps1: "ps1 = (pr, sp)"
    by (simp add: update_spot_vacant)
  have "\<forall>i < length rest. \<exists>r. map_of sp (idx + 1 + i + 1) = Some r \<and> IsAvailable r"
  proof (intro allI impI)
    fix i assume "i < length rest"
    with Cons.prems(3) have "\<exists>r. map_of sp (idx + Suc i + 1) = Some r \<and> IsAvailable r"
      by (metis Suc_less_eq length_Cons)
    then show "\<exists>r. map_of sp (idx + 1 + i + 1) = Some r \<and> IsAvailable r" by simp
  qed
  with Cons.IH [of "idx + 1"] rec quiet ps1 Cons.prems(2) show ?case
    by simp
qed

subsection \<open>The frame enters through the verdicts only\<close>


subsection \<open>Single precision sums and the centroid\<close>

text \<open>
  \<open>exponent2\<close> is the binary exponent: a non-zero \<open>x\<close> lies in the binade
  \<open>[2 ^ e, 2 ^ (e + 1))\<close> of \<open>e = exponent2 x\<close>, so that \<open>float32\<close> rounds to a multiple
  of \<open>2 ^ (e - 23)\<close>, the spacing of the 24-bit significands there.
\<close>

lemma exponent2_bounds:
  assumes "x \<noteq> 0"
  shows "2 powi exponent2 x \<le> \<bar>x\<bar> \<and> \<bar>x\<bar> < 2 powi (exponent2 x + 1)"
proof (cases "1 \<le> \<bar>x\<bar>")
  case True
  define n where "n = \<lfloor>\<bar>x\<bar>\<rfloor>"
  from True have n1: "1 \<le> n" by (simp add: n_def le_floor_iff)
  then have npos: "0 < n" by simp
  have L: "1 \<le> bitlen n" using npos by (simp add: bitlen_alt_def)
  from bitlen_bounds [OF npos]
  have lo: "2 ^ nat (bitlen n - 1) \<le> n" and hi: "n < 2 ^ nat (bitlen n)" by simp_all
  have e: "exponent2 x = bitlen n - 1" using True by (simp add: exponent2_def n_def)
  have "(of_int n :: rat) \<le> \<bar>x\<bar>" by (simp add: n_def)
  moreover have "(2::rat) ^ nat (bitlen n - 1) \<le> of_int n"
    using lo by (metis of_int_le_iff of_int_numeral of_int_power)
  ultimately have low: "(2::rat) ^ nat (bitlen n - 1) \<le> \<bar>x\<bar>" by linarith
  have "\<bar>x\<bar> < of_int (n + 1)" unfolding n_def by linarith
  moreover have "n + 1 \<le> 2 ^ nat (bitlen n)" using hi by simp
  then have "(of_int (n + 1) :: rat) \<le> 2 ^ nat (bitlen n)"
    by (metis of_int_le_iff of_int_numeral of_int_power)
  ultimately have high: "\<bar>x\<bar> < (2::rat) ^ nat (bitlen n)" by linarith
  from low high L show ?thesis
    by (simp add: e power_int_def)
next
  case False
  define y where "y = 1 / \<bar>x\<bar>"
  from assms False have y1: "1 < y" by (simp add: y_def)
  define m where "m = \<lceil>y\<rceil> - 1"
  have my: "of_int m < y" "y \<le> of_int m + 1" unfolding m_def by linarith+
  from y1 my have m1: "1 \<le> m" by linarith
  then have mpos: "0 < m" by simp
  have L: "1 \<le> bitlen m" using mpos by (simp add: bitlen_alt_def)
  from bitlen_bounds [OF mpos]
  have lo: "2 ^ nat (bitlen m - 1) \<le> m" and hi: "m < 2 ^ nat (bitlen m)" by simp_all
  have e: "exponent2 x = - bitlen m" using False by (simp add: exponent2_def m_def y_def)
  have "(2::rat) ^ nat (bitlen m - 1) \<le> of_int m"
    using lo by (metis of_int_le_iff of_int_numeral of_int_power)
  with my have ylow: "(2::rat) ^ nat (bitlen m - 1) < y" by linarith
  have "m + 1 \<le> 2 ^ nat (bitlen m)" using hi by simp
  then have "(of_int (m + 1) :: rat) \<le> 2 ^ nat (bitlen m)"
    by (metis of_int_le_iff of_int_numeral of_int_power)
  with my have yhigh: "y \<le> (2::rat) ^ nat (bitlen m)" by simp
  have xpos: "0 < \<bar>x\<bar>" using assms by simp
  have x: "\<bar>x\<bar> = 1 / y" by (simp add: y_def)
  have low: "1 / (2::rat) ^ nat (bitlen m) \<le> \<bar>x\<bar>"
    unfolding x using yhigh y1 by (intro divide_left_mono) simp_all
  have high: "\<bar>x\<bar> < 1 / (2::rat) ^ nat (bitlen m - 1)"
    unfolding x using ylow y1 by (intro divide_strict_left_mono mult_pos_pos) simp_all
  have p1: "(2::rat) powi (- bitlen m) = 1 / 2 ^ nat (bitlen m)"
    using L by (simp add: power_int_def field_simps)
  have p2: "(2::rat) powi (1 - bitlen m) = 1 / 2 ^ nat (bitlen m - 1)"
    using L by (cases "bitlen m = 1") (simp_all add: power_int_def field_simps)
  from low high show ?thesis
    by (simp add: e p1 p2)
qed







subsection \<open>The worked session\<close>

lemma ex_session_starts:
  "init None ex_files (Some ''lot.json'') (Some p) = Inr (ex_start p)"
  by (simp add: init_def ex_files_def ex_start_def ex_lot_def init_spots_def)

lemma ex_first_frame:
  "process_data bbox_test (fst car_in_first) (snd car_in_first) (ex_start 7000) = Inr (ex_busy 7000 1)"
  by code_simp

lemma ex_two_frames:
  "process_frames bbox_test [car_in_first, car_in_first] (ex_start 7000) = Inr (ex_busy 7000 2)"
  by code_simp

lemma ex_five_frames:
  "process_frames bbox_test [car_in_first, car_in_first, car_in_first, car_in_first, no_cars]
     (ex_start 7000) = Inr (ex_closed 7000 4 400)"
  by code_simp

subsection \<open>The state machine\<close>

text \<open>
  C1. What the code does in the scenario of the claim, at 6000 per hour. The frame in which
  an available Space is found occupied runs the second statement and then, because the
  flag it has just cleared is read again, the fourth one as well: for every price the
  Space ends that frame with \<^verbatim>\<open>Time\<close> 1 and the invoice of one minute, not with
  \<^verbatim>\<open>Time\<close> 0. Four occupied frames in a row give a running time of 4, and the frame
  that closes the session adds 4 minutes and 400 to the totals, where three minutes would
  be billed 300.
\<close>

theorem opening_frame_counts_a_minute:
  "update_spot (Some p) k True (pr, [(k, new_spot)])
     = Inr (pr\<lparr>total_cars := total_cars pr + 1\<rparr>,
            [(k, \<lparr>Time = 1, Invoice = calc_invoice 1 p, IsAvailable = False\<rparr>)])
   \<and> process_frames bbox_test [car_in_first] (ex_start 6000) = Inr (ex_busy 6000 1)
   \<and> process_frames bbox_test [car_in_first, car_in_first, car_in_first, car_in_first]
        (ex_start 6000) = Inr (ex_busy 6000 4)
   \<and> process_frames bbox_test
        [car_in_first, car_in_first, car_in_first, car_in_first, no_cars]
        (ex_start 6000) = Inr (ex_closed 6000 4 400)
   \<and> map_of (spots (ex_busy 6000 1)) 1 = Some \<lparr>Time = 1, Invoice = 100, IsAvailable = False\<rparr>
   \<and> map_of (spots (ex_busy 6000 4)) 1 = Some \<lparr>Time = 4, Invoice = 400, IsAvailable = False\<rparr>
   \<and> round_invoice (calc_invoice 3 6000) = 300"
proof -
  have "map_of [(k, new_spot)] k = Some new_spot"
    by simp
  then have first_pass: "update_spot (Some p) k True (pr, [(k, new_spot)])
     = Inr (pr\<lparr>total_cars := total_cars pr + 1\<rparr>,
            [(k, \<lparr>Time = 1, Invoice = calc_invoice 1 p, IsAvailable = False\<rparr>)])"
    by (simp add: update_spot_occupied new_spot_def)
  have scenario:
    "process_frames bbox_test [car_in_first] (ex_start 6000) = Inr (ex_busy 6000 1)
     \<and> process_frames bbox_test [car_in_first, car_in_first, car_in_first, car_in_first]
          (ex_start 6000) = Inr (ex_busy 6000 4)
     \<and> process_frames bbox_test
          [car_in_first, car_in_first, car_in_first, car_in_first, no_cars]
          (ex_start 6000) = Inr (ex_closed 6000 4 400)
     \<and> map_of (spots (ex_busy 6000 1)) 1 = Some \<lparr>Time = 1, Invoice = 100, IsAvailable = False\<rparr>
     \<and> map_of (spots (ex_busy 6000 4)) 1 = Some \<lparr>Time = 4, Invoice = 400, IsAvailable = False\<rparr>
     \<and> round_invoice (calc_invoice 3 6000) = 300"
    by code_simp
  from first_pass scenario show ?thesis by blast
qed

text \<open>
  C3. After a call of \<^verbatim>\<open>process_data\<close> that returns, \<^verbatim>\<open>Occupancy\<close> is the number
  of regions with a detection inside in this frame, \<^verbatim>\<open>Available\<close> is the number of
  regions minus that, and the two add up to the number of regions, whatever the counts
  were before the call.
\<close>

theorem occupancy_snapshot:
  assumes "process_data ppt boxes clss s = Inr s'"
  shows "Occupancy (pr_info s') + Available (pr_info s') = int (length (json s'))
         \<and> Occupancy (pr_info s')
             = int (length (filter (\<lambda>rg. rg_occupied ppt (points rg) (zip boxes clss)) (json s)))
         \<and> Available (pr_info s') = int (length (json s)) - Occupancy (pr_info s')
         \<and> json s' = json s"
proof -
  from assms obtain fs es pr sp where
    loop: "regions_loop ppt (zip boxes clss) (price_per_hour s) 0 (json s)
       ((0, int (length (json s))), pr_info s, spots s) = Inr ((fs, es), pr, sp)"
    and s': "s' = s\<lparr>pr_info := pr\<lparr>Occupancy := fs, Available := es\<rparr>, spots := sp\<rparr>"
    by (rule process_data_Inr)
  from regions_loop_counts [OF loop] s' show ?thesis by simp
qed

theorem occupancy_snapshot_witness:
  "process_data bbox_test (fst car_in_first) (snd car_in_first) (ex_start 7000)
     = Inr (ex_busy 7000 1)
   \<and> Occupancy (pr_info (ex_busy 7000 1)) + Available (pr_info (ex_busy 7000 1))
       = int (length (json (ex_busy 7000 1)))
   \<and> Occupancy (pr_info (ex_busy 7000 1)) = 1
   \<and> Available (pr_info (ex_busy 7000 1)) = 1"
  using occupancy_snapshot [OF ex_first_frame] ex_first_frame
  by (simp add: ex_busy_def ex_lot_def)

text \<open>
  C4. In the state the constructor returns, and in the state after any number of frames
  processed from there, every Space whose \<^verbatim>\<open>IsAvailable\<close> is true has
  \<^verbatim>\<open>Time\<close> 0 and \<^verbatim>\<open>Invoice\<close> 0.
\<close>

theorem available_space_at_rest:
  assumes "init base files json_file price = Inr s0"
    and "process_frames ppt frames s0 = Inr s"
    and "map_of (spots s) k = Some r"
    and "IsAvailable r"
  shows "Time r = 0 \<and> Invoice r = 0"
proof -
  from init_Inr [OF assms(1)] have "available_at_rest (spots s0)"
    by (auto simp: init_spots_at_rest)
  then have "available_at_rest (spots s)"
    by (rule process_frames_at_rest [OF disjI1, OF assms(2)])
  with assms(3,4) show ?thesis
    by (simp add: available_at_rest_def)
qed

theorem available_space_at_rest_witness:
  "init None ex_files (Some ''lot.json'') (Some 7000) = Inr (ex_start 7000)
   \<and> process_frames bbox_test [car_in_first, car_in_first] (ex_start 7000) = Inr (ex_busy 7000 2)
   \<and> map_of (spots (ex_busy 7000 2)) 2 = Some new_spot
   \<and> IsAvailable new_spot
   \<and> Time new_spot = 0 \<and> Invoice new_spot = 0"
proof -
  have third: "map_of (spots (ex_busy 7000 2)) 2 = Some new_spot"
    by (simp add: ex_busy_def)
  have fourth: "IsAvailable new_spot"
    by (simp add: new_spot_def)
  from available_space_at_rest [OF ex_session_starts ex_two_frames third fourth]
  show ?thesis
    using ex_session_starts ex_two_frames third fourth by simp
qed

text \<open>
  C10. \<^verbatim>\<open>total_revenue\<close> is a multiple of 100 in the state the constructor returns
  and after any number of frames processed from there.
\<close>

theorem total_revenue_multiple_of_100:
  assumes "init base files json_file price = Inr s0"
    and "process_frames ppt frames s0 = Inr s"
  shows "py_mod (total_revenue (pr_info s)) 100 = 0"
proof -
  from init_Inr [OF assms(1)] have "py_mod (total_revenue (pr_info s0)) 100 = 0"
    by (auto simp: new_info_def py_mod_def)
  then show ?thesis
    by (rule process_frames_revenue [OF disjI1, OF assms(2)])
qed

theorem total_revenue_multiple_of_100_witness:
  "init None ex_files (Some ''lot.json'') (Some 7000) = Inr (ex_start 7000)
   \<and> process_frames bbox_test [car_in_first, car_in_first, car_in_first, car_in_first, no_cars]
        (ex_start 7000) = Inr (ex_closed 7000 4 400)
   \<and> total_revenue (pr_info (ex_closed 7000 4 400)) = 400
   \<and> py_mod (total_revenue (pr_info (ex_closed 7000 4 400))) 100 = 0"
  using total_revenue_multiple_of_100 [OF ex_session_starts ex_five_frames]
    ex_session_starts ex_five_frames
  by (simp add: ex_closed_def)

text \<open>
  C9. A Space that is available and not occupied in the frame: its pass through the four
  statements returns \<^verbatim>\<open>pr_info\<close> and \<^verbatim>\<open>spots\<close> as they were; after a call that
  returns, its entry of \<^verbatim>\<open>spots\<close> is what it was before; and when every Space is
  available and none is occupied, a call that returns has changed nothing but the two
  per-frame counts, finds the same conditions again, and a second call that returns
  gives the same state.
\<close>

theorem available_unoccupied_is_noop:
  "(map_of sp k = Some r \<and> IsAvailable r
      \<longrightarrow> update_spot price k False (pr, sp) = Inr (pr, sp))
   \<and> (process_data ppt boxes clss s = Inr s' \<and> idx < length (json s)
       \<and> map_of (spots s) (idx + 1) = Some r \<and> IsAvailable r
       \<and> \<not> rg_occupied ppt (points (json s ! idx)) (zip boxes clss)
      \<longrightarrow> map_of (spots s') (idx + 1) = Some r)
   \<and> (quiet_frame ppt boxes clss s \<and> process_data ppt boxes clss s = Inr s'
      \<longrightarrow> s' = s\<lparr>pr_info := (pr_info s)\<lparr>Occupancy := 0,
                                            Available := int (length (json s))\<rparr>\<rparr>
          \<and> quiet_frame ppt boxes clss s'
          \<and> (\<forall>s''. process_data ppt boxes clss s' = Inr s'' \<longrightarrow> s'' = s'))"
proof (intro conjI impI)
  assume "map_of sp k = Some r \<and> IsAvailable r"
  then show "update_spot price k False (pr, sp) = Inr (pr, sp)"
    by (simp add: update_spot_vacant)
next
  assume a: "process_data ppt boxes clss s = Inr s' \<and> idx < length (json s)
       \<and> map_of (spots s) (idx + 1) = Some r \<and> IsAvailable r
       \<and> \<not> rg_occupied ppt (points (json s ! idx)) (zip boxes clss)"
  then obtain fs es pr1 sp1 where
    loop: "regions_loop ppt (zip boxes clss) (price_per_hour s) 0 (json s)
       ((0, int (length (json s))), pr_info s, spots s) = Inr ((fs, es), pr1, sp1)"
    and s': "s' = s\<lparr>pr_info := pr1\<lparr>Occupancy := fs, Available := es\<rparr>, spots := sp1\<rparr>"
    by (auto elim: process_data_Inr)
  have "map_of sp1 (idx + 1) = Some r"
  proof (rule regions_loop_vacant_space [OF loop])
    show "map_of (spots s) (idx + 1) = Some r" using a by simp
    show "IsAvailable r" using a by simp
    show "\<not> rg_occupied ppt (points (json s ! i)) (zip boxes clss)"
      if "i < length (json s)" and "idx + 1 = 0 + i + 1" for i
      using a that by simp
  qed
  with s' show "map_of (spots s') (idx + 1) = Some r" by simp
next
  have quiet: "t' = t\<lparr>pr_info := (pr_info t)\<lparr>Occupancy := 0, Available := int (length (json t))\<rparr>\<rparr>"
    if q: "quiet_frame ppt boxes clss t" and ret: "process_data ppt boxes clss t = Inr t'"
    for t t'
  proof -
    from ret obtain fs es pr1 sp1 where
      loop: "regions_loop ppt (zip boxes clss) (price_per_hour t) 0 (json t)
         ((0, int (length (json t))), pr_info t, spots t) = Inr ((fs, es), pr1, sp1)"
      and t': "t' = t\<lparr>pr_info := pr1\<lparr>Occupancy := fs, Available := es\<rparr>, spots := sp1\<rparr>"
      by (rule process_data_Inr)
    from q have none: "\<forall>rg \<in> set (json t). \<not> rg_occupied ppt (points rg) (zip boxes clss)"
      by (simp add: quiet_frame_def list_all_iff)
    have avail: "\<forall>i < length (json t). \<exists>r. map_of (spots t) (0 + i + 1) = Some r \<and> IsAvailable r"
    proof (intro allI impI)
      fix i assume "i < length (json t)"
      with q have "case map_of (spots t) (i + 1) of None \<Rightarrow> False | Some r \<Rightarrow> IsAvailable r"
        by (simp add: quiet_frame_def list_all_iff)
      then show "\<exists>r. map_of (spots t) (0 + i + 1) = Some r \<and> IsAvailable r"
        by (simp split: option.splits)
    qed
    from regions_loop_all_vacant [OF loop none avail] t' show ?thesis
      by simp
  qed
  let ?s1 = "s\<lparr>pr_info := (pr_info s)\<lparr>Occupancy := 0, Available := int (length (json s))\<rparr>\<rparr>"
  assume a: "quiet_frame ppt boxes clss s \<and> process_data ppt boxes clss s = Inr s'"
  with quiet [of s s'] show first: "s' = ?s1" by simp
  from a have "quiet_frame ppt boxes clss ?s1"
    by (simp add: quiet_frame_def)
  with first show again: "quiet_frame ppt boxes clss s'" by simp
  show "\<forall>s''. process_data ppt boxes clss s' = Inr s'' \<longrightarrow> s'' = s'"
  proof (intro allI impI)
    fix s''
    assume "process_data ppt boxes clss s' = Inr s''"
    from quiet [OF again this] first show "s'' = s'" by simp
  qed
qed

theorem available_unoccupied_is_noop_witness:
  "map_of (spots (ex_busy 7000 1)) 2 = Some new_spot \<and> IsAvailable new_spot
   \<and> update_spot (Some 7000) 2 False (pr_info (ex_busy 7000 1), spots (ex_busy 7000 1))
       = Inr (pr_info (ex_busy 7000 1), spots (ex_busy 7000 1))
   \<and> process_data bbox_test (fst car_in_first) (snd car_in_first) (ex_start 7000)
       = Inr (ex_busy 7000 1)
   \<and> (1::nat) < length (json (ex_start 7000))
   \<and> map_of (spots (ex_start 7000)) (1 + 1) = Some new_spot
   \<and> \<not> rg_occupied bbox_test (points (json (ex_start 7000) ! 1))
         (zip (fst car_in_first) (snd car_in_first))
   \<and> map_of (spots (ex_busy 7000 1)) (1 + 1) = Some new_spot
   \<and> quiet_frame bbox_test (fst no_cars) (snd no_cars) (ex_start 7000)
   \<and> process_data bbox_test (fst no_cars) (snd no_cars) (ex_start 7000)
       = Inr ((ex_start 7000)\<lparr>pr_info := new_info\<lparr>Available := 2\<rparr>\<rparr>)
   \<and> quiet_frame bbox_test (fst no_cars) (snd no_cars)
        ((ex_start 7000)\<lparr>pr_info := new_info\<lparr>Available := 2\<rparr>\<rparr>)
   \<and> process_data bbox_test (fst no_cars) (snd no_cars)
        ((ex_start 7000)\<lparr>pr_info := new_info\<lparr>Available := 2\<rparr>\<rparr>)
       = Inr ((ex_start 7000)\<lparr>pr_info := new_info\<lparr>Available := 2\<rparr>\<rparr>)"
proof -
  let ?quiet = "(ex_start 7000)\<lparr>pr_info := new_info\<lparr>Available := 2\<rparr>\<rparr>"
  have a1: "map_of (spots (ex_busy 7000 1)) 2 = Some new_spot \<and> IsAvailable new_spot"
    by (simp add: ex_busy_def new_spot_def)
  have b1: "(1::nat) < length (json (ex_start 7000))
     \<and> map_of (spots (ex_start 7000)) (1 + 1) = Some new_spot
     \<and> \<not> rg_occupied bbox_test (points (json (ex_start 7000) ! 1))
         (zip (fst car_in_first) (snd car_in_first))"
    by code_simp
  have c1: "quiet_frame bbox_test (fst no_cars) (snd no_cars) (ex_start 7000)"
    by code_simp
  have c2: "process_data bbox_test (fst no_cars) (snd no_cars) (ex_start 7000) = Inr ?quiet"
    by code_simp
  have c3: "process_data bbox_test (fst no_cars) (snd no_cars) ?quiet = Inr ?quiet"
    by code_simp
  note parts = available_unoccupied_is_noop
    [where sp = "spots (ex_busy 7000 1)" and k = 2 and r = new_spot and price = "Some 7000"
       and pr = "pr_info (ex_busy 7000 1)" and ppt = bbox_test and boxes = "fst car_in_first"
       and clss = "snd car_in_first" and s = "ex_start 7000" and s' = "ex_busy 7000 1"
       and idx = 1]
  note quiet = available_unoccupied_is_noop
    [where ppt = bbox_test and boxes = "fst no_cars" and clss = "snd no_cars"
       and s = "ex_start 7000" and s' = ?quiet, THEN conjunct2, THEN conjunct2, THEN mp,
     OF conjI, OF c1 c2]
  from parts a1 have step: "update_spot (Some 7000) 2 False
       (pr_info (ex_busy 7000 1), spots (ex_busy 7000 1))
     = Inr (pr_info (ex_busy 7000 1), spots (ex_busy 7000 1))"
    by blast
  from parts a1 b1 ex_first_frame
  have frame: "map_of (spots (ex_busy 7000 1)) (1 + 1) = Some new_spot"
    by blast
  from quiet have still: "quiet_frame bbox_test (fst no_cars) (snd no_cars) ?quiet"
    by blast
  from a1 b1 c1 c2 c3 ex_first_frame step frame still show ?thesis
    by blast
qed

subsection \<open>The resolver\<close>



subsection \<open>The constructor\<close>




subsection \<open>Ordering of the annotations\<close>

lemma with_keys_Inr:
  assumes "with_keys xs = Inr krs"
  shows "krs = map (\<lambda>rg. (key_of rg, rg)) xs \<and> (\<forall>rg \<in> set xs. get_min_coords rg = Inr (key_of rg))"
  using assms
proof (induction xs arbitrary: krs)
  case Nil
  then show ?case by simp
next
  case (Cons rg rest)
  from Cons.prems obtain k krs' where
    k: "get_min_coords rg = Inr k" and rest: "with_keys rest = Inr krs'"
    and krs: "krs = (k, rg) # krs'"
    by (auto simp: and_then_eq_Inr)
  from k have "key_of rg = k" by (simp add: key_of_def)
  with Cons.IH [OF rest] k krs show ?case by simp
qed

lemma with_keys_defined:
  assumes "\<forall>rg \<in> set xs. get_min_coords rg = Inr (key_of rg)"
  shows "with_keys xs = Inr (map (\<lambda>rg. (key_of rg, rg)) xs)"
  using assms by (induction xs) simp_all

lemma get_min_coords_defined:
  "points rg \<noteq> [] \<Longrightarrow> get_min_coords rg = Inr (key_of rg)"
  by (simp add: key_of_def get_min_coords_def Let_def split: list.splits)

lemma get_min_coords_Min:
  assumes "points rg \<noteq> []"
  shows "get_min_coords rg = Inr (Min (snd ` set (points rg)), Min (fst ` set (points rg)))"
proof -
  from assms obtain p ps where pts: "points rg = p # ps"
    by (cases "points rg") auto
  have "fold min (map fst ps) (fst p) = Min (set (fst p # map fst ps))"
    by (rule Min.set_eq_fold [symmetric])
  moreover have "fold min (map snd ps) (snd p) = Min (set (snd p # map snd ps))"
    by (rule Min.set_eq_fold [symmetric])
  ultimately show ?thesis
    by (simp add: get_min_coords_def pts Let_def)
qed

lemma insort_key_decorated:
  "insort_key fst (f x, x) (map (\<lambda>y. (f y, y)) ys) = map (\<lambda>y. (f y, y)) (insort_key f x ys)"
  by (induction ys) simp_all

lemma sort_key_decorated:
  "sort_key fst (map (\<lambda>y. (f y, y)) xs) = map (\<lambda>y. (f y, y)) (sort_key f xs)"
  by (induction xs) (simp_all add: insort_key_decorated)

lemma sorted_by_min_coords_Inr:
  assumes "sorted_by_min_coords xs = Inr ys"
  shows "ys = sort_key key_of xs \<and> (\<forall>rg \<in> set xs. get_min_coords rg = Inr (key_of rg))"
proof -
  from assms obtain krs where krs: "with_keys xs = Inr krs"
    and ys: "ys = map snd (sort_key fst krs)"
    by (auto simp: sorted_by_min_coords_def and_then_eq_Inr)
  from with_keys_Inr [OF krs] ys show ?thesis
    by (simp add: sort_key_decorated comp_def)
qed

lemma sorted_by_min_coords_defined:
  assumes "\<forall>rg \<in> set xs. get_min_coords rg = Inr (key_of rg)"
  shows "sorted_by_min_coords xs = Inr (sort_key key_of xs)"
  using with_keys_defined [OF assms]
  by (simp add: sorted_by_min_coords_def sort_key_decorated comp_def)

lemma sorted_by_min_coords_returns:
  assumes "\<forall>rg \<in> set xs. points rg \<noteq> []"
  shows "\<exists>ys. sorted_by_min_coords xs = Inr ys"
  using sorted_by_min_coords_defined [of xs] assms get_min_coords_defined by blast

text \<open>
  C8 (amended). The key of a polygon with at least one point is the pair of the least
  y and the least x among its points (without a point the key raises). When every polygon
  has a point, the annotations are returned sorted ascending by that key: the result is a
  rearrangement of the input, its
  keys are in ascending order, and polygons with the same key keep their submission
  order. When no two polygons share a key, every reordering of the input gives the same
  result, so the ids \<open>1..N\<close> (position in the result plus one) do not depend on the
  submission order. For polygons with keys \<open>(40, 1553)\<close> and \<open>(10, 500)\<close> the second one
  comes first, and so gets id 1, in either input order.
\<close>

theorem annotations_sorted_by_min_coords:
  "(points rg \<noteq> [] \<longrightarrow>
      get_min_coords rg = Inr (Min (snd ` set (points rg)), Min (fst ` set (points rg))))
   \<and> (points rg = [] \<longrightarrow> get_min_coords rg = Inl ValueError)
   \<and> (sorted_by_min_coords xs = Inr ys \<longrightarrow>
      mset ys = mset xs
      \<and> (\<exists>ks. map get_min_coords ys = map Inr ks \<and> sorted ks)
      \<and> filter (\<lambda>rg. get_min_coords rg = Inr k) ys = filter (\<lambda>rg. get_min_coords rg = Inr k) xs
      \<and> (distinct (map get_min_coords xs) \<and> mset xs' = mset xs
           \<longrightarrow> sorted_by_min_coords xs' = Inr ys))
   \<and> (get_min_coords a = Inr (40, 1553) \<and> get_min_coords b = Inr (10, 500) \<longrightarrow>
        sorted_by_min_coords [a, b] = Inr [b, a] \<and> sorted_by_min_coords [b, a] = Inr [b, a])"
proof (intro conjI impI)
  assume "points rg \<noteq> []"
  then show "get_min_coords rg = Inr (Min (snd ` set (points rg)), Min (fst ` set (points rg)))"
    by (rule get_min_coords_Min)
next
  assume "points rg = []"
  then show "get_min_coords rg = Inl ValueError"
    by (simp add: get_min_coords_def)
next
  assume r: "sorted_by_min_coords xs = Inr ys"
  from sorted_by_min_coords_Inr [OF r] have ys: "ys = sort_key key_of xs"
    and keys: "\<forall>rg \<in> set xs. get_min_coords rg = Inr (key_of rg)"
    by simp_all
  show "mset ys = mset xs" by (simp add: ys)
  have "set ys = set xs" by (simp add: ys)
  with keys have "map get_min_coords ys = map Inr (map key_of ys)" by simp
  moreover have "sorted (map key_of ys)" by (simp add: ys)
  ultimately show "\<exists>ks. map get_min_coords ys = map Inr ks \<and> sorted ks" by blast
  have "filter (\<lambda>rg. get_min_coords rg = Inr k) zs = filter (\<lambda>rg. key_of rg = k) zs"
    if "set zs = set xs" for zs
    using that keys by (intro filter_cong) auto
  from this [of ys] this [of xs] \<open>set ys = set xs\<close>
  show "filter (\<lambda>rg. get_min_coords rg = Inr k) ys = filter (\<lambda>rg. get_min_coords rg = Inr k) xs"
    by (simp add: ys sort_key_stable)
  show "sorted_by_min_coords xs' = Inr ys"
    if d: "distinct (map get_min_coords xs) \<and> mset xs' = mset xs"
  proof -
    from d have set': "set xs' = set xs" by (metis mset_eq_setD)
    from d have "inj_on get_min_coords (set xs)" by (simp add: distinct_map)
    with keys have "inj_on key_of (set xs)"
      by (metis (mono_tags, lifting) inj_onD inj_onI)
    with d set' have "sort_key key_of xs' = sort_key key_of xs"
      by (intro sort_key_eq_sort_key) simp_all
    with keys set' sorted_by_min_coords_defined [of xs'] ys show ?thesis by simp
  qed
next
  assume k: "get_min_coords a = Inr (40, 1553) \<and> get_min_coords b = Inr (10, 500)"
  then show "sorted_by_min_coords [a, b] = Inr [b, a]"
    by (simp add: sorted_by_min_coords_def)
  from k show "sorted_by_min_coords [b, a] = Inr [b, a]"
    by (simp add: sorted_by_min_coords_def)
qed

theorem annotations_sorted_by_min_coords_witness:
  "get_min_coords doc_polygon = Inr (40, 1553) \<and> get_min_coords upper_polygon = Inr (10, 500)
   \<and> sorted_by_min_coords [doc_polygon, upper_polygon] = Inr [upper_polygon, doc_polygon]
   \<and> sorted_by_min_coords [upper_polygon, doc_polygon] = Inr [upper_polygon, doc_polygon]
   \<and> distinct (map get_min_coords [doc_polygon, upper_polygon])
   \<and> mset [upper_polygon, doc_polygon] = mset [doc_polygon, upper_polygon]
   \<and> map get_min_coords [upper_polygon, doc_polygon] = map Inr [(10, 500), (40, 1553)]
   \<and> sorted [(10, 500), (40, 1553 :: int) :: int \<times> int]
   \<and> points upper_polygon \<noteq> []
   \<and> get_min_coords upper_polygon
       = Inr (Min (snd ` set (points upper_polygon)), Min (fst ` set (points upper_polygon)))
   \<and> points \<lparr>points = []\<rparr> = []
   \<and> get_min_coords \<lparr>points = []\<rparr> = Inl ValueError"
proof -
  have some: "points upper_polygon \<noteq> []"
    by (simp add: upper_polygon_def)
  from annotations_sorted_by_min_coords [where rg = upper_polygon, THEN conjunct1] some
  have least: "get_min_coords upper_polygon
       = Inr (Min (snd ` set (points upper_polygon)), Min (fst ` set (points upper_polygon)))"
    by blast
  have none: "points \<lparr>points = []\<rparr> = []"
    by simp
  from annotations_sorted_by_min_coords
    [where rg = "\<lparr>points = []\<rparr>", THEN conjunct2, THEN conjunct1] none
  have raises: "get_min_coords \<lparr>points = []\<rparr> = Inl ValueError"
    by blast
  have keys: "get_min_coords doc_polygon = Inr (40, 1553)
      \<and> get_min_coords upper_polygon = Inr (10, 500)"
    by (simp add: get_min_coords_def doc_polygon_def upper_polygon_def)
  note example = annotations_sorted_by_min_coords
    [where a = doc_polygon and b = upper_polygon, THEN conjunct2, THEN conjunct2,
      THEN conjunct2, THEN mp, OF keys]
  from example have first: "sorted_by_min_coords [doc_polygon, upper_polygon]
      = Inr [upper_polygon, doc_polygon]"
    by (rule conjunct1)
  have reorder: "distinct (map get_min_coords [doc_polygon, upper_polygon])
      \<and> mset [upper_polygon, doc_polygon] = mset [doc_polygon, upper_polygon]"
    using keys by simp
  note general = annotations_sorted_by_min_coords
    [where xs = "[doc_polygon, upper_polygon]" and ys = "[upper_polygon, doc_polygon]"
       and xs' = "[upper_polygon, doc_polygon]", THEN conjunct2, THEN conjunct2,
      THEN conjunct1, THEN mp, OF first]
  from general reorder
  have second: "sorted_by_min_coords [upper_polygon, doc_polygon] = Inr [upper_polygon, doc_polygon]"
    by blast
  have listed: "map get_min_coords [upper_polygon, doc_polygon] = map Inr [(10, 500), (40, 1553)]
      \<and> sorted [(10, 500), (40, 1553 :: int) :: int \<times> int]"
    using keys by simp
  from keys first second reorder listed some least none raises show ?thesis by blast
qed

text \<open>
  The claim as stated fails: two different triangles with the same key come out in the
  order in which they were submitted, so their ids depend on it.
\<close>

theorem ids_depend_on_order_for_equal_keys_counterexample:
  "sorted_by_min_coords [small_triangle, large_triangle] = Inr [small_triangle, large_triangle]
   \<and> sorted_by_min_coords [large_triangle, small_triangle] = Inr [large_triangle, small_triangle]
   \<and> small_triangle \<noteq> large_triangle
   \<and> get_min_coords small_triangle = Inr (0, 0)
   \<and> get_min_coords large_triangle = Inr (0, 0)"
  by (simp add: sorted_by_min_coords_def small_triangle_def large_triangle_def get_min_coords_def)

subsection \<open>Rounding of the invoice\<close>

lemma round_invoice_of_int:
  assumes "0 \<le> a"
  shows "round_invoice (of_int a) = of_int ((a div 100) * 100)"
proof -
  have "\<lfloor>(of_int a :: rat) / 100\<rfloor> = a div 100"
    using floor_divide_of_int_eq [of a 100, where ?'a = rat] by simp
  then show ?thesis by (simp add: round_invoice_def)
qed

text \<open>
  C5. \<^verbatim>\<open>round_invoice\<close> truncates down to the nearest multiple of 100 by floor
  division: for every amount \<open>x \<ge> 0\<close> the result is not negative, is at most \<open>x\<close>, is
  less than 100 below \<open>x\<close> and leaves remainder 0 modulo 100, which determines it; on a
  whole amount \<open>a \<ge> 0\<close> it is \<^verbatim>\<open>(a // 100) * 100\<close>; and 2335, 99 and 3000 give 2300, 0
  and 3000.
\<close>

theorem round_invoice_truncates:
  "(0 \<le> x \<longrightarrow> 0 \<le> round_invoice x \<and> round_invoice x \<le> x \<and> x - round_invoice x < 100
        \<and> py_mod (round_invoice x) 100 = 0)
   \<and> (0 \<le> a \<longrightarrow> round_invoice (of_int a) = of_int ((a div 100) * 100))
   \<and> round_invoice 2335 = 2300 \<and> round_invoice 99 = 0 \<and> round_invoice 3000 = 3000"
proof -
  have "of_int \<lfloor>x / 100\<rfloor> \<le> x / 100"
    by (rule of_int_floor_le)
  then have le: "round_invoice x \<le> x"
    by (simp add: round_invoice_def)
  have "x / 100 < of_int \<lfloor>x / 100\<rfloor> + 1"
    by linarith
  then have near: "x - round_invoice x < 100"
    by (simp add: round_invoice_def)
  have nonneg: "0 \<le> round_invoice x" if "0 \<le> x"
    using that by (simp add: round_invoice_def)
  have multiple: "py_mod (round_invoice x) 100 = 0"
    by (simp add: py_mod_def round_invoice_def)
  have examples: "round_invoice 2335 = 2300 \<and> round_invoice 99 = 0 \<and> round_invoice 3000 = 3000"
    using round_invoice_of_int [of 2335] round_invoice_of_int [of 99]
      round_invoice_of_int [of 3000]
    by simp
  show ?thesis
    using le near nonneg multiple examples round_invoice_of_int [of a] by blast
qed

theorem round_invoice_truncates_witness:
  "(0::rat) \<le> 501 / 2 \<and> 0 \<le> round_invoice (501 / 2) \<and> round_invoice (501 / 2) \<le> 501 / 2
   \<and> 501 / 2 - round_invoice (501 / 2) < 100 \<and> py_mod (round_invoice (501 / 2)) 100 = 0
   \<and> round_invoice (501 / 2) = 200
   \<and> (0::int) \<le> 2578 \<and> round_invoice (of_int 2578) = of_int ((2578 div 100) * 100)
   \<and> round_invoice 2578 = 2500"
proof -
  have x: "(0::rat) \<le> 501 / 2" by simp
  have a: "(0::int) \<le> 2578" by simp
  from round_invoice_truncates [of "501 / 2" 2578] x a
  have bounds: "0 \<le> round_invoice (501 / 2) \<and> round_invoice (501 / 2) \<le> 501 / 2
      \<and> 501 / 2 - round_invoice (501 / 2) < 100 \<and> py_mod (round_invoice (501 / 2)) 100 = 0"
    and whole: "round_invoice (of_int 2578) = of_int ((2578 div 100) * 100)"
    by blast+
  have exact: "round_invoice (501 / 2) = 200"
    by code_simp
  from whole have "round_invoice 2578 = 2500"
    by simp
  with x a bounds whole exact show ?thesis by blast
qed

end
